theory Spec2Isabelle
  imports Main
begin

section \<open>The divide-and-conquer envelope algorithm of Env\_divide\_and\_conquer\_2.h\<close>

text \<open>
  The header declares the class template \<open>Envelope_divide_and_conquer_2\<close>. Its
  constructors, destructor, \<open>insert_curves\<close>, \<open>insert_x_monotone_curves\<close>,
  \<open>get_traits\<close> and the functor \<open>Vertical_strict_weak_ordering\<close> have bodies in
  the header; the protected members \<open>_construct_envelope_non_vertical\<close>,
  \<open>_construct_singleton_diagram\<close>, \<open>_merge_envelopes\<close>, \<open>_compare_vertices\<close>,
  \<open>_merge_single_interval\<close>, \<open>_merge_two_intervals\<close>, \<open>_append_vertex\<close> and
  \<open>_merge_vertical_segments\<close> are declared only.
\<close>

subsection \<open>Types of the class\<close>

datatype Envelope_type = LOWER | UPPER

datatype Comparison_result = SMALLER | EQUAL | LARGER

text \<open>
  \<open>CGAL::Object\<close> as \<open>make_x_monotone_2\<close> fills it: an x-monotone curve or an
  isolated point. \<open>CGAL::assign (xcv, obj)\<close> succeeds exactly on the first.
\<close>

datatype ('pt, 'xcv) Object = Object_point 'pt | Object_x_monotone_curve 'xcv

fun assign :: "('pt, 'xcv) Object \<Rightarrow> 'xcv option" where
  "assign (Object_x_monotone_curve xcv) = Some xcv"
| "assign (Object_point p) = None"

text \<open>
  The traits class \<open>Traits_2\<close> is a template parameter; the functors the header
  obtains from it are the fields of a record.
\<close>

record ('cv, 'xcv, 'pt) Traits_2 =
  make_x_monotone_2 :: "'cv \<Rightarrow> ('pt, 'xcv) Object list"
  is_vertical_2 :: "'xcv \<Rightarrow> bool"
  compare_x_2 :: "'pt \<Rightarrow> 'pt \<Rightarrow> Comparison_result"
  construct_min_vertex_2 :: "'xcv \<Rightarrow> 'pt"

text \<open>
  The data members of an instance. \<open>traits\<close> is a pointer: an address of the
  traits heap below.
\<close>

record Envelope_divide_and_conquer_2 =
  traits :: nat
  own_traits :: bool
  env_type :: Envelope_type

text \<open>
  \<open>Curve_pointer_list\<close> is a list of pointers into the range the caller passed
  (\<open>&(*iter)\<close>): a pointer is the position of its curve in that range.
\<close>

type_synonym Curve_pointer_list = "nat list"

text \<open>
  The calls a member function makes, in the order it makes them.
\<close>

datatype ('cv, 'xcv) call =
    Call_make_x_monotone_2 'cv
  | Call_is_vertical_2 'xcv
  | Call_insert_x_monotone_curves "'xcv list" Envelope_type
  | Call_construct_envelope_non_vertical Curve_pointer_list
  | Call_merge_vertical_segments Curve_pointer_list

text \<open>
  The two protected members \<open>insert_x_monotone_curves\<close> calls have no body in the
  header. They are parameters: each receives the instance (with \<open>env_type\<close>
  already set), the range the pointers point into, the pointer list and the
  diagram, and returns the diagram it leaves in its output argument. They are
  taken to read the data members of the instance and not to write them.
\<close>

record ('xcv, 'd) members =
  construct_envelope_non_vertical ::
    "Envelope_divide_and_conquer_2 \<Rightarrow> 'xcv list \<Rightarrow> Curve_pointer_list \<Rightarrow> 'd \<Rightarrow> 'd"
  merge_vertical_segments ::
    "Envelope_divide_and_conquer_2 \<Rightarrow> 'xcv list \<Rightarrow> Curve_pointer_list \<Rightarrow> 'd \<Rightarrow> 'd"

subsection \<open>insert\_x\_monotone\_curves\<close>

text \<open>
  The loop \<open>for (iter = begin; iter != end; ++iter)\<close> that separates the regular
  curves from the vertical ones. \<open>i\<close> is the position of \<open>iter\<close> in the range;
  \<open>push_back\<close> appends at the end.
\<close>

fun separate ::
  "('xcv \<Rightarrow> bool) \<Rightarrow> 'xcv list \<Rightarrow> nat \<Rightarrow> Curve_pointer_list \<Rightarrow> Curve_pointer_list \<Rightarrow>
   Curve_pointer_list \<times> Curve_pointer_list"
where
  "separate is_vertical [] i reg_list vert_list = (reg_list, vert_list)"
| "separate is_vertical (xcv # rest) i reg_list vert_list =
     (if is_vertical xcv
      then separate is_vertical rest (Suc i) reg_list (vert_list @ [i])
      else separate is_vertical rest (Suc i) (reg_list @ [i]) vert_list)"

text \<open>
  The result is the instance after the call, the diagram left in the output
  argument and the calls made.
\<close>

definition insert_x_monotone_curves ::
  "('xcv, 'd) members \<Rightarrow> ('cv, 'xcv, 'pt) Traits_2 \<Rightarrow> Envelope_divide_and_conquer_2 \<Rightarrow>
   'xcv list \<Rightarrow> Envelope_type \<Rightarrow> 'd \<Rightarrow>
   Envelope_divide_and_conquer_2 \<times> 'd \<times> ('cv, 'xcv) call list"
where
  "insert_x_monotone_curves m tr this xcurves type diagram =
     (let this1 = this\<lparr>env_type := type\<rparr>;
          (reg_list, vert_list) = separate (is_vertical_2 tr) xcurves 0 [] [];
          diagram1 = construct_envelope_non_vertical m this1 xcurves reg_list diagram;
          calls1 = map Call_is_vertical_2 xcurves
                   @ [Call_construct_envelope_non_vertical reg_list]
      in if length vert_list > 0
         then (this1, merge_vertical_segments m this1 xcurves vert_list diagram1,
               calls1 @ [Call_merge_vertical_segments vert_list])
         else (this1, diagram1, calls1))"

subsection \<open>insert\_curves\<close>

text \<open>
  The inner loop over the objects one call of \<open>make_x_monotone_2\<close> returned. The
  loop advances the iterator \<open>obj_it\<close>, but the object it tests is \<open>*obj_itr\<close>
  (line 130), and the header declares no \<open>obj_itr\<close>. What that name denotes is
  the parameter \<open>obj_itr\<close> of the model: the object under it, which the loop
  never changes. Each iteration assigns that object to \<open>xcv\<close> and, when the
  assignment succeeds, appends \<open>xcv\<close>.
\<close>

fun collect_x_curves ::
  "('pt, 'xcv) Object \<Rightarrow> ('pt, 'xcv) Object list \<Rightarrow> 'xcv list \<Rightarrow> 'xcv list"
where
  "collect_x_curves obj_itr [] x_curves = x_curves"
| "collect_x_curves obj_itr (obj # objects) x_curves =
     (case assign obj_itr of
        Some xcv \<Rightarrow> collect_x_curves obj_itr objects (x_curves @ [xcv])
      | None \<Rightarrow> collect_x_curves obj_itr objects x_curves)"

text \<open>The outer loop over the input curves, with the calls of the traits it makes.\<close>

fun subdivide ::
  "('cv, 'xcv, 'pt) Traits_2 \<Rightarrow> ('pt, 'xcv) Object \<Rightarrow> 'cv list \<Rightarrow> 'xcv list \<Rightarrow>
   ('cv, 'xcv) call list \<Rightarrow> 'xcv list \<times> ('cv, 'xcv) call list"
where
  "subdivide tr obj_itr [] x_curves calls = (x_curves, calls)"
| "subdivide tr obj_itr (cv # rest) x_curves calls =
     subdivide tr obj_itr rest (collect_x_curves obj_itr (make_x_monotone_2 tr cv) x_curves)
       (calls @ [Call_make_x_monotone_2 cv])"

definition insert_curves ::
  "('xcv, 'd) members \<Rightarrow> ('cv, 'xcv, 'pt) Traits_2 \<Rightarrow> ('pt, 'xcv) Object \<Rightarrow>
   Envelope_divide_and_conquer_2 \<Rightarrow> 'cv list \<Rightarrow> Envelope_type \<Rightarrow> 'd \<Rightarrow>
   Envelope_divide_and_conquer_2 \<times> 'd \<times> ('cv, 'xcv) call list"
where
  "insert_curves m tr obj_itr this curves type diagram =
     (let (x_curves, calls) = subdivide tr obj_itr curves [] [];
          (this1, diagram1, calls1) = insert_x_monotone_curves m tr this x_curves type diagram
      in (this1, diagram1,
          calls @ [Call_insert_x_monotone_curves x_curves type] @ calls1))"

subsection \<open>Vertical\_strict\_weak\_ordering\<close>

text \<open>
  The functor receives pointers to \<open>M_curve_2\<close> objects, whose member \<open>xcv\<close> is the
  x-monotone curve. Its body is \<open>return (true)\<close>; the comparison through the traits
  stands in a comment.
\<close>

record 'xcv M_curve_2 =
  xcv :: 'xcv

definition Vertical_strict_weak_ordering ::
  "('cv, 'xcv, 'pt) Traits_2 \<Rightarrow> 'xcv M_curve_2 \<Rightarrow> 'xcv M_curve_2 \<Rightarrow> bool"
where
  "Vertical_strict_weak_ordering tr mcv1 mcv2 = True"

subsection \<open>Constructors, destructor and get\_traits\<close>

text \<open>
  The traits objects created by \<open>new Traits_2\<close>: the next address to hand out,
  the addresses of the objects alive, and the addresses \<open>delete\<close> was applied
  to, in order. An address is never handed out twice, so it names one object;
  an allocation is taken to succeed. \<open>delete\<close> of an address that is not
  alive is undefined behaviour: \<open>None\<close>.
\<close>

record heap =
  next_addr :: nat
  live :: "nat set"
  deleted :: "nat list"

definition new_Traits_2 :: "heap \<Rightarrow> nat \<times> heap" where
  "new_Traits_2 h =
     (next_addr h, h\<lparr>next_addr := Suc (next_addr h), live := insert (next_addr h) (live h)\<rparr>)"

definition delete_Traits_2 :: "nat \<Rightarrow> heap \<Rightarrow> heap option" where
  "delete_Traits_2 a h =
     (if a \<in> live h then Some (h\<lparr>live := live h - {a}, deleted := deleted h @ [a]\<rparr>)
      else None)"

text \<open>\<open>Envelope_divide_and_conquer_2 ()\<close>\<close>

definition ctor :: "heap \<Rightarrow> Envelope_divide_and_conquer_2 \<times> heap" where
  "ctor h =
     (let (a, h1) = new_Traits_2 h
      in (\<lparr>traits = a, own_traits = True, env_type = LOWER\<rparr>, h1))"

text \<open>\<open>Envelope_divide_and_conquer_2 (const Traits_2* _traits)\<close>\<close>

definition ctor_traits :: "nat \<Rightarrow> Envelope_divide_and_conquer_2" where
  "ctor_traits p = \<lparr>traits = p, own_traits = False, env_type = LOWER\<rparr>"

text \<open>\<open>~Envelope_divide_and_conquer_2 ()\<close>\<close>

definition dtor :: "Envelope_divide_and_conquer_2 \<Rightarrow> heap \<Rightarrow> heap option" where
  "dtor this h = (if own_traits this then delete_Traits_2 (traits this) h else Some h)"

definition get_traits :: "Envelope_divide_and_conquer_2 \<Rightarrow> nat" where
  "get_traits this = traits this"

subsection \<open>Programs over the public interface\<close>

text \<open>
  What a caller can do with instances: declare one with either constructor
  (the pointer passed to the second is any pointer, or the one \<open>get_traits\<close>
  of a live instance returns), and end the lifetime of one, which runs its
  destructor. The copy constructor and the assignment operator are declared in
  the protected part of the class and have no body, so no operation copies an
  instance. An instance is named by a number; a name in use cannot be declared
  again, and only a live instance can be destroyed.
\<close>

datatype operation =
    New_default nat
  | New_with_traits nat nat
  | New_with_traits_of nat nat
  | Destroy nat

record world =
  traits_heap :: heap
  instances :: "(nat \<times> Envelope_divide_and_conquer_2) list"

definition init_world :: world where
  "init_world = \<lparr>traits_heap = \<lparr>next_addr = 0, live = {}, deleted = []\<rparr>, instances = []\<rparr>"

fun step :: "operation \<Rightarrow> world \<Rightarrow> world option" where
  "step (New_default i) w =
     (if i \<in> fst ` set (instances w) then None
      else let (this, h) = ctor (traits_heap w)
           in Some \<lparr>traits_heap = h, instances = (i, this) # instances w\<rparr>)"
| "step (New_with_traits i p) w =
     (if i \<in> fst ` set (instances w) then None
      else Some (w\<lparr>instances := (i, ctor_traits p) # instances w\<rparr>))"
| "step (New_with_traits_of i j) w =
     (if i \<in> fst ` set (instances w) then None
      else case map_of (instances w) j of
             None \<Rightarrow> None
           | Some other \<Rightarrow>
               Some (w\<lparr>instances := (i, ctor_traits (get_traits other)) # instances w\<rparr>))"
| "step (Destroy i) w =
     (case map_of (instances w) i of
        None \<Rightarrow> None
      | Some this \<Rightarrow>
          (case dtor this (traits_heap w) of
             None \<Rightarrow> None
           | Some h \<Rightarrow>
               Some \<lparr>traits_heap = h,
                     instances = filter (\<lambda>(j, other). j \<noteq> i) (instances w)\<rparr>))"

fun run :: "operation list \<Rightarrow> world \<Rightarrow> world option" where
  "run [] w = Some w"
| "run (operation # rest) w =
     (case step operation w of None \<Rightarrow> None | Some w1 \<Rightarrow> run rest w1)"

text \<open>
  No pointer an owning instance stores is stored by another live instance.
\<close>

definition owned_traits_unshared :: "world \<Rightarrow> bool" where
  "owned_traits_unshared w =
     (\<forall>(i, a) \<in> set (instances w). \<forall>(j, b) \<in> set (instances w).
        i \<noteq> j \<and> own_traits a \<longrightarrow> traits a \<noteq> traits b)"

text \<open>
  No pointer an owning instance stores is stored by another live owning
  instance.
\<close>

definition owners_unshared :: "world \<Rightarrow> bool" where
  "owners_unshared w =
     (\<forall>(i, a) \<in> set (instances w). \<forall>(j, b) \<in> set (instances w).
        i \<noteq> j \<and> own_traits a \<and> own_traits b \<longrightarrow> traits a \<noteq> traits b)"

text \<open>
  What every program over the interface keeps: names are distinct, the pointer
  of an owning instance is alive, owners do not share, every address handed
  out is below the next one, and no address was deleted twice or is alive
  after its deletion.
\<close>

definition world_inv :: "world \<Rightarrow> bool" where
  "world_inv w =
     (distinct (map fst (instances w))
      \<and> (\<forall>(i, a) \<in> set (instances w). own_traits a \<longrightarrow> traits a \<in> live (traits_heap w))
      \<and> owners_unshared w
      \<and> (\<forall>a \<in> live (traits_heap w). a < next_addr (traits_heap w))
      \<and> (\<forall>a \<in> set (deleted (traits_heap w)). a < next_addr (traits_heap w))
      \<and> distinct (deleted (traits_heap w))
      \<and> set (deleted (traits_heap w)) \<inter> live (traits_heap w) = {})"

subsection \<open>The diagram and the members without a body\<close>

text \<open>
  Modelled from the spec: \<open>Env_default_diagram_1.h\<close>, the diagram class, is not
  among the sources. Section 3 of the spec: a diagram is an alternating
  sequence edge, vertex, ..., vertex, edge with one edge more than vertices; an
  edge owns a possibly empty set of curves; the first and the last edge are
  unbounded. Here each edge that ends at a vertex is paired with that vertex,
  from left to right, and the unbounded last edge stands alone.
\<close>

record ('pt, 'xcv) Envelope_diagram_1 =
  pieces :: "('xcv set \<times> 'pt) list"
  rightmost :: "'xcv set"

definition empty_diagram :: "('pt, 'xcv) Envelope_diagram_1" where
  "empty_diagram = \<lparr>pieces = [], rightmost = {}\<rparr>"

text \<open>
  Modelled from the spec: \<open>_construct_envelope_non_vertical\<close> has no body in the
  header. Section 4.2 of the spec: no curve gives the empty diagram; one curve
  gives the diagram of the singleton builder; otherwise the list is split by
  position into two halves of nearly equal size, each half is built by
  recursion and the two diagrams are merged. The singleton builder and the
  merger are parameters.
\<close>

function construct_envelope_non_vertical_spec ::
  "('xcv \<Rightarrow> ('pt, 'xcv) Envelope_diagram_1) \<Rightarrow>
   (('pt, 'xcv) Envelope_diagram_1 \<Rightarrow> ('pt, 'xcv) Envelope_diagram_1 \<Rightarrow> ('pt, 'xcv) Envelope_diagram_1) \<Rightarrow>
   'xcv list \<Rightarrow> Curve_pointer_list \<Rightarrow> ('pt, 'xcv) Envelope_diagram_1"
where
  "construct_envelope_non_vertical_spec singleton merge xcurves ptrs =
     (if ptrs = [] then empty_diagram
      else if length ptrs = 1 then singleton (xcurves ! hd ptrs)
      else merge
        (construct_envelope_non_vertical_spec singleton merge xcurves
           (take (length ptrs div 2) ptrs))
        (construct_envelope_non_vertical_spec singleton merge xcurves
           (drop (length ptrs div 2) ptrs)))"
  by pat_completeness auto
termination
  by (relation "measure (\<lambda>(singleton, merge, xcurves, ptrs). length ptrs)")
     (auto simp: Suc_lessI)

text \<open>
  The members with the construction of the spec; the singleton builder, the
  merger and the merger of the vertical segments stay parameters and receive
  the instance, whose \<open>env_type\<close> they read.
\<close>

definition spec_members ::
  "(Envelope_divide_and_conquer_2 \<Rightarrow> 'xcv \<Rightarrow> ('pt, 'xcv) Envelope_diagram_1) \<Rightarrow>
   (Envelope_divide_and_conquer_2 \<Rightarrow> ('pt, 'xcv) Envelope_diagram_1 \<Rightarrow>
      ('pt, 'xcv) Envelope_diagram_1 \<Rightarrow> ('pt, 'xcv) Envelope_diagram_1) \<Rightarrow>
   (Envelope_divide_and_conquer_2 \<Rightarrow> 'xcv list \<Rightarrow> Curve_pointer_list \<Rightarrow>
      ('pt, 'xcv) Envelope_diagram_1 \<Rightarrow> ('pt, 'xcv) Envelope_diagram_1) \<Rightarrow>
   ('xcv, ('pt, 'xcv) Envelope_diagram_1) members"
where
  "spec_members singleton merge merge_vertical =
     \<lparr>construct_envelope_non_vertical = (\<lambda>this xcurves ptrs out_d.
        construct_envelope_non_vertical_spec (singleton this) (merge this) xcurves ptrs),
      merge_vertical_segments = merge_vertical\<rparr>"

text \<open>
  Modelled from the spec: \<open>_compare_vertices\<close> has no body in the header. Its
  doc comment there and the tie-break rule of section 4.3 of the spec: SMALLER
  if x(v1) < x(v2), or the x-coordinates are equal and y(v1) < y(v2) for the
  lower, y(v1) > y(v2) for the upper envelope; LARGER under the mirrored
  conditions; EQUAL otherwise; \<open>same_x\<close> is set to whether x(v1) = x(v2). A
  vertex is given by the coordinates of its point; the result is the returned
  value and \<open>same_x\<close>.
\<close>

definition compare_vertices ::
  "Envelope_divide_and_conquer_2 \<Rightarrow> ('a::linorder) \<times> 'a \<Rightarrow> 'a \<times> 'a \<Rightarrow>
   Comparison_result \<times> bool"
where
  "compare_vertices this v1 v2 =
     (if fst v1 < fst v2 then (SMALLER, False)
      else if fst v1 > fst v2 then (LARGER, False)
      else if (env_type this = LOWER \<and> snd v1 < snd v2)
            \<or> (env_type this = UPPER \<and> snd v1 > snd v2) then (SMALLER, True)
      else if (env_type this = LOWER \<and> snd v1 > snd v2)
            \<or> (env_type this = UPPER \<and> snd v1 < snd v2) then (LARGER, True)
      else (EQUAL, True))"

subsection \<open>The merge of two non-empty intervals\<close>

text \<open>
  Modelled from the spec: the operations of the traits that only the merger
  uses (section 6 of the spec); the header never calls them. \<open>compare_at_x\<close>
  compares two curve sets at an x-coordinate relative to the envelope type:
  SMALLER when the first set is the extremal one there, LARGER when the second
  is, EQUAL when they are co-extremal. \<open>crossing_points\<close> stands for the
  intersection operation: the points between two bounds (\<open>None\<close> is an
  unbounded side) where the two edges cross, from left to right.
  \<open>representative_x\<close> gives the x-coordinate at which an interval is compared.
\<close>

record ('pt, 'xcv, 'x) merger_traits =
  compare_at_x :: "Envelope_type \<Rightarrow> 'xcv set \<Rightarrow> 'xcv set \<Rightarrow> 'x \<Rightarrow> Comparison_result"
  crossing_points :: "'xcv set \<Rightarrow> 'xcv set \<Rightarrow> 'pt option \<Rightarrow> 'pt option \<Rightarrow> 'pt list"
  representative_x :: "'pt option \<Rightarrow> 'pt option \<Rightarrow> 'x"

text \<open>
  Modelled from the spec: the curve set of the output edge over one
  sub-interval, section 4.3 step 2 (the code that classifies an interval has
  no body in the header): the winner's curve set, and the union of both when
  the comparison yields equality.
\<close>

definition interval_curves ::
  "('pt, 'xcv, 'x) merger_traits \<Rightarrow> Envelope_type \<Rightarrow> 'xcv set \<Rightarrow> 'xcv set \<Rightarrow>
   'pt option \<Rightarrow> 'pt option \<Rightarrow> 'xcv set"
where
  "interval_curves mt type e1 e2 l r =
     (case compare_at_x mt type e1 e2 (representative_x mt l r) of
        SMALLER \<Rightarrow> e1
      | LARGER \<Rightarrow> e2
      | EQUAL \<Rightarrow> e1 \<union> e2)"

text \<open>
  Modelled from the spec: \<open>_append_vertex\<close> has no body in the header. Its doc
  comment there: the point becomes the new rightmost vertex, and the edge
  between the rightmost vertex so far and the new one gets the curves of the
  input edge. Section 4.3 step 3 of the spec: the new edge is merged into the
  previous output edge when its curve set is identical, and a new vertex is
  created otherwise.
\<close>

definition append_vertex ::
  "('pt, 'xcv) Envelope_diagram_1 \<Rightarrow> 'pt \<Rightarrow> 'xcv set \<Rightarrow> ('pt, 'xcv) Envelope_diagram_1"
where
  "append_vertex diag p e =
     (if pieces diag \<noteq> [] \<and> fst (last (pieces diag)) = e
      then diag\<lparr>pieces := butlast (pieces diag) @ [(e, p)]\<rparr>
      else diag\<lparr>pieces := pieces diag @ [(e, p)]\<rparr>)"

text \<open>
  Modelled from the spec: the last edge of a merge has no right vertex
  (section 4.3, termination); it becomes the unbounded edge of the diagram,
  merged with the previous output edge under the same rule.
\<close>

definition set_rightmost ::
  "('pt, 'xcv) Envelope_diagram_1 \<Rightarrow> 'xcv set \<Rightarrow> ('pt, 'xcv) Envelope_diagram_1"
where
  "set_rightmost diag e =
     (if pieces diag \<noteq> [] \<and> fst (last (pieces diag)) = e
      then diag\<lparr>pieces := butlast (pieces diag), rightmost := e\<rparr>
      else diag\<lparr>rightmost := e\<rparr>)"

text \<open>
  Modelled from the spec: the split of an interval at the crossing points,
  section 4.3 step 2 (no body in the header): each sub-interval is classified
  on its own, and a vertex is inserted at each crossing point.
\<close>

fun merge_sub_intervals ::
  "('pt, 'xcv, 'x) merger_traits \<Rightarrow> Envelope_type \<Rightarrow> 'xcv set \<Rightarrow> 'xcv set \<Rightarrow>
   'pt option \<Rightarrow> 'pt list \<Rightarrow> 'pt option \<Rightarrow> ('pt, 'xcv) Envelope_diagram_1 \<Rightarrow>
   ('pt, 'xcv) Envelope_diagram_1"
where
  "merge_sub_intervals mt type e1 e2 l [] None out_d =
     set_rightmost out_d (interval_curves mt type e1 e2 l None)"
| "merge_sub_intervals mt type e1 e2 l [] (Some v) out_d =
     append_vertex out_d v (interval_curves mt type e1 e2 l (Some v))"
| "merge_sub_intervals mt type e1 e2 l (p # ps) v out_d =
     merge_sub_intervals mt type e1 e2 (Some p) ps v
       (append_vertex out_d p (interval_curves mt type e1 e2 l (Some p)))"

definition rightmost_vertex :: "('pt, 'xcv) Envelope_diagram_1 \<Rightarrow> 'pt option" where
  "rightmost_vertex diag =
     (if pieces diag = [] then None else Some (snd (last (pieces diag))))"

text \<open>
  Modelled from the spec: \<open>_merge_two_intervals\<close> has no body in the header.
  The parameters are the header's: the two non-empty edges (their curve sets),
  whether each is the leftmost edge of its diagram, the next vertex, whether
  it exists, the diagram it comes from, and the merged diagram. The interval
  runs from the rightmost vertex of the merged diagram to the next vertex. The
  spec gives \<open>is_leftmost1\<close>, \<open>is_leftmost2\<close> and \<open>org_v\<close> no part in the result.
\<close>

definition merge_two_intervals ::
  "('pt, 'xcv, 'x) merger_traits \<Rightarrow> Envelope_divide_and_conquer_2 \<Rightarrow>
   'xcv set \<Rightarrow> bool \<Rightarrow> 'xcv set \<Rightarrow> bool \<Rightarrow> 'pt \<Rightarrow> bool \<Rightarrow> int \<Rightarrow>
   ('pt, 'xcv) Envelope_diagram_1 \<Rightarrow> ('pt, 'xcv) Envelope_diagram_1"
where
  "merge_two_intervals mt this e1 is_leftmost1 e2 is_leftmost2 v v_exists org_v out_d =
     (let l = rightmost_vertex out_d;
          r = (if v_exists then Some v else None)
      in merge_sub_intervals mt (env_type this) e1 e2 l (crossing_points mt e1 e2 l r) r out_d)"

text \<open>
  The sub-intervals an interval from \<open>l\<close> to \<open>r\<close> has when it is split at the
  points \<open>ps\<close>.
\<close>

definition sub_intervals ::
  "'pt option \<Rightarrow> 'pt list \<Rightarrow> 'pt option \<Rightarrow> ('pt option \<times> 'pt option) list"
where
  "sub_intervals l ps r = zip (l # map Some ps) (map Some ps @ [r])"

text \<open>
  Reading a diagram whose points are pairs with the x-coordinate first: the
  x-coordinates of its vertices from left to right, and the curve set of the
  edge that lies over an x-coordinate, which is the edge before the first
  vertex to the right of it, or the unbounded last edge. An x-coordinate lies
  inside an interval when it is strictly between its bounds.
\<close>

definition vertex_xs :: "('a \<times> 'b, 'xcv) Envelope_diagram_1 \<Rightarrow> 'a list" where
  "vertex_xs diag = map (fst \<circ> snd) (pieces diag)"

fun curves_at_pieces ::
  "('xcv set \<times> ('a::linorder \<times> 'b)) list \<Rightarrow> 'xcv set \<Rightarrow> 'a \<Rightarrow> 'xcv set"
where
  "curves_at_pieces [] unbounded x = unbounded"
| "curves_at_pieces ((e, p) # rest) unbounded x =
     (if x < fst p then e else curves_at_pieces rest unbounded x)"

definition curves_at :: "('a::linorder \<times> 'b, 'xcv) Envelope_diagram_1 \<Rightarrow> 'a \<Rightarrow> 'xcv set" where
  "curves_at diag x = curves_at_pieces (pieces diag) (rightmost diag) x"

definition inside :: "('a::linorder \<times> 'b) option \<Rightarrow> 'a \<Rightarrow> ('a \<times> 'b) option \<Rightarrow> bool" where
  "inside l x r =
     ((case l of None \<Rightarrow> True | Some p \<Rightarrow> fst p < x)
      \<and> (case r of None \<Rightarrow> True | Some q \<Rightarrow> x < fst q))"

subsection \<open>A traits class to run the members on\<close>

text \<open>
  The class is a template; to evaluate its members a traits class has to be
  supplied. This one has points with integer coordinates and line segments as
  curves: a segment whose endpoints coincide splits into an isolated point, any
  other into one x-monotone segment directed from its lexicographically smaller
  endpoint.
\<close>

type_synonym point = "int \<times> int"
type_synonym segment = "point \<times> point"

definition segment_traits :: "(segment, segment, point) Traits_2" where
  "segment_traits =
     \<lparr>make_x_monotone_2 = (\<lambda>(p, q).
        if p = q then [Object_point p]
        else if fst p < fst q \<or> (fst p = fst q \<and> snd p < snd q)
          then [Object_x_monotone_curve (p, q)]
          else [Object_x_monotone_curve (q, p)]),
      is_vertical_2 = (\<lambda>(p, q). fst p = fst q),
      compare_x_2 = (\<lambda>p q.
        if fst p < fst q then SMALLER else if fst p = fst q then EQUAL else LARGER),
      construct_min_vertex_2 = fst\<rparr>"

text \<open>
  Stand-ins for the two protected members without a body: they record the
  pointer list they were given in a diagram that is a list of pointer lists.
\<close>

definition recording_members :: "(segment, nat list list) members" where
  "recording_members =
     \<lparr>construct_envelope_non_vertical = (\<lambda>this xcurves ptrs d. [ptrs]),
      merge_vertical_segments = (\<lambda>this xcurves ptrs d. d @ [ptrs])\<rparr>"

text \<open>
  Traits for the merger on ramps of one height: a curve is a name, an offset
  \<open>a\<close> and a height \<open>h\<close>, and its value at x is the smaller of \<open>x + a\<close> and
  \<open>h\<close>. A curve set is compared by its least value at x (the greater value
  wins for the upper envelope). Two edges of ramps of one height meet where
  the ramp with the least offset reaches the height.
\<close>

definition ramp_value :: "nat \<times> int \<times> int \<Rightarrow> int \<Rightarrow> int" where
  "ramp_value c x = min (x + fst (snd c)) (snd (snd c))"

definition ramp_merger_traits :: "(point, nat \<times> int \<times> int, int) merger_traits" where
  "ramp_merger_traits =
     \<lparr>compare_at_x = (\<lambda>type e1 e2 x.
        if Min ((\<lambda>c. ramp_value c x) ` e1) = Min ((\<lambda>c. ramp_value c x) ` e2) then EQUAL
        else if (Min ((\<lambda>c. ramp_value c x) ` e1) < Min ((\<lambda>c. ramp_value c x) ` e2))
                = (type = LOWER) then SMALLER
        else LARGER),
      crossing_points = (\<lambda>e1 e2 l r.
        let h = Min ((\<lambda>c. snd (snd c)) ` (e1 \<union> e2));
            a = Min ((\<lambda>c. fst (snd c)) ` (e1 \<union> e2))
        in if inside l (h - a) r then [(h - a, h)] else []),
      representative_x = (\<lambda>l r.
        case l of
          Some p \<Rightarrow> (case r of Some q \<Rightarrow> (fst p + fst q) div 2 | None \<Rightarrow> fst p + 1)
        | None \<Rightarrow> (case r of Some q \<Rightarrow> fst q - 1 | None \<Rightarrow> 0))\<rparr>"

section \<open>Properties\<close>

subsection \<open>The loops as list functions\<close>

lemma separate_enumerate:
  "separate p xs i reg vert =
     (reg @ map fst (filter (\<lambda>(j, c). \<not> p c) (enumerate i xs)),
      vert @ map fst (filter (\<lambda>(j, c). p c) (enumerate i xs)))"
  by (induction xs arbitrary: i reg vert) simp_all

lemma filter_enumerate_nth:
  "map fst (filter (\<lambda>(j, c). P c) (enumerate n xs)) =
     filter (\<lambda>i. P (xs ! (i - n))) [n..<n + length xs]"
proof (induction xs arbitrary: n)
  case Nil
  show ?case by simp
next
  case (Cons x xs)
  have upt: "[n..<n + length (x # xs)] = n # [Suc n..<Suc n + length xs]"
    by (simp add: upt_conv_Cons del: upt_Suc)
  have tl: "filter (\<lambda>i. P ((x # xs) ! (i - n))) [Suc n..<Suc n + length xs] =
        filter (\<lambda>i. P (xs ! (i - Suc n))) [Suc n..<Suc n + length xs]"
  proof (rule filter_cong[OF refl])
    fix i assume "i \<in> set [Suc n..<Suc n + length xs]"
    then have "i - n = Suc (i - Suc n)" by auto
    then show "P ((x # xs) ! (i - n)) = P (xs ! (i - Suc n))" by simp
  qed
  have "map fst (filter (\<lambda>(j, c). P c) (enumerate n (x # xs))) =
        (if P x then [n] else []) @ map fst (filter (\<lambda>(j, c). P c) (enumerate (Suc n) xs))"
    by simp
  also have "\<dots> = (if P x then [n] else [])
                   @ filter (\<lambda>i. P ((x # xs) ! (i - n))) [Suc n..<Suc n + length xs]"
    by (simp only: Cons.IH tl)
  also have "\<dots> = filter (\<lambda>i. P ((x # xs) ! (i - n))) (n # [Suc n..<Suc n + length xs])"
    by (simp del: upt_Suc)
  finally show ?case by (simp only: upt)
qed

lemma separate_filter:
  "separate p xs 0 [] [] =
     (filter (\<lambda>i. \<not> p (xs ! i)) [0..<length xs], filter (\<lambda>i. p (xs ! i)) [0..<length xs])"
  using filter_enumerate_nth[of _ 0 xs] by (simp add: separate_enumerate)

lemma collect_x_curves_obj_itr:
  "collect_x_curves obj_itr objects x_curves =
     x_curves @ (case assign obj_itr of
                   Some c \<Rightarrow> replicate (length objects) c
                 | None \<Rightarrow> [])"
proof (induction objects arbitrary: x_curves)
  case Nil
  show ?case by (simp split: option.splits)
next
  case (Cons obj objects)
  show ?case by (simp add: Cons split: option.splits)
qed

subsection \<open>The ordering functor of the vertical segments\<close>

lemma Vertical_strict_weak_ordering_always:
  "Vertical_strict_weak_ordering tr mcv1 mcv2"
  by (simp add: Vertical_strict_weak_ordering_def)

text \<open>
  C1: the functor is to order vertical segments by the x-coordinate of their
  endpoint, so it must be false on a segment and itself. The body returns true
  there: for the vertical segment from (3,0) to (3,1) the functor holds of the
  segment and itself, while the traits compare the x-coordinate of its minimal
  endpoint with itself as EQUAL, not SMALLER; and it holds of the segment at
  x = 5 against the one at x = 3, where the traits answer LARGER.
\<close>

theorem Vertical_strict_weak_ordering_not_strict:
  "Vertical_strict_weak_ordering segment_traits \<lparr>xcv = ((3, 0), (3, 1))\<rparr> \<lparr>xcv = ((3, 0), (3, 1))\<rparr>
   \<and> compare_x_2 segment_traits
         (construct_min_vertex_2 segment_traits ((3, 0), (3, 1)))
         (construct_min_vertex_2 segment_traits ((3, 0), (3, 1))) = EQUAL
   \<and> Vertical_strict_weak_ordering segment_traits \<lparr>xcv = ((5, 0), (5, 2))\<rparr> \<lparr>xcv = ((3, 0), (3, 1))\<rparr>
   \<and> compare_x_2 segment_traits
         (construct_min_vertex_2 segment_traits ((5, 0), (5, 2)))
         (construct_min_vertex_2 segment_traits ((3, 0), (3, 1))) = LARGER"
  by (simp add: Vertical_strict_weak_ordering_def segment_traits_def)

subsection \<open>insert\_curves and insert\_x\_monotone\_curves\<close>

text \<open>
  C2: \<open>insert_curves\<close> is to keep, from the objects each call of
  \<open>make_x_monotone_2\<close> returns, exactly the x-monotone curves and pass them on.
  For the curves (0,0)-(0,0) and (0,0)-(2,1) the segment traits return an
  isolated point and the x-monotone curve (0,0)-(2,1), so that curve alone is
  to be passed. The loop of the header tests \<open>*obj_itr\<close> instead of the object
  under its iterator: when \<open>obj_itr\<close> denotes an isolated point it passes no
  curve, and when it denotes the x-monotone curve (7,7)-(8,8) it passes that
  curve twice, once for every object returned.
\<close>

theorem insert_curves_tests_obj_itr:
  "concat (map (\<lambda>cv. [c. Object_x_monotone_curve c \<leftarrow> make_x_monotone_2 segment_traits cv])
     [((0, 0), (0, 0)), ((0, 0), (2, 1))]) = [((0, 0), (2, 1))]
   \<and> insert_curves recording_members segment_traits (Object_point (9, 9))
       \<lparr>traits = 0, own_traits = False, env_type = LOWER\<rparr>
       [((0, 0), (0, 0)), ((0, 0), (2, 1))] LOWER []
     = (\<lparr>traits = 0, own_traits = False, env_type = LOWER\<rparr>, [[]],
        [Call_make_x_monotone_2 ((0, 0), (0, 0)), Call_make_x_monotone_2 ((0, 0), (2, 1)),
         Call_insert_x_monotone_curves [] LOWER,
         Call_construct_envelope_non_vertical []])
   \<and> insert_curves recording_members segment_traits (Object_x_monotone_curve ((7, 7), (8, 8)))
       \<lparr>traits = 0, own_traits = False, env_type = LOWER\<rparr>
       [((0, 0), (0, 0)), ((0, 0), (2, 1))] LOWER []
     = (\<lparr>traits = 0, own_traits = False, env_type = LOWER\<rparr>, [[0, 1]],
        [Call_make_x_monotone_2 ((0, 0), (0, 0)), Call_make_x_monotone_2 ((0, 0), (2, 1)),
         Call_insert_x_monotone_curves [((7, 7), (8, 8)), ((7, 7), (8, 8))] LOWER,
         Call_is_vertical_2 ((7, 7), (8, 8)), Call_is_vertical_2 ((7, 7), (8, 8)),
         Call_construct_envelope_non_vertical [0, 1]])"
  by (simp add: insert_curves_def insert_x_monotone_curves_def segment_traits_def
        recording_members_def)

text \<open>
  C6: \<open>insert_x_monotone_curves\<close> splits the positions of the input range into
  two lists by \<open>is_vertical_2\<close>: the regular list holds exactly the positions of
  the curves that are not vertical, the vertical list exactly those of the
  vertical ones, so the lists are disjoint and cover the range. Only the
  regular list goes to \<open>_construct_envelope_non_vertical\<close>; the vertical list
  goes to \<open>_merge_vertical_segments\<close> afterwards, on the diagram the
  construction left (a call made when the list is not empty).
\<close>

theorem insert_x_monotone_curves_partition:
  "insert_x_monotone_curves m tr this xcurves type diagram =
     (let reg_list = filter (\<lambda>i. \<not> is_vertical_2 tr (xcurves ! i)) [0..<length xcurves];
          vert_list = filter (\<lambda>i. is_vertical_2 tr (xcurves ! i)) [0..<length xcurves];
          this1 = this\<lparr>env_type := type\<rparr>;
          diagram1 = construct_envelope_non_vertical m this1 xcurves reg_list diagram
      in (this1,
          (if vert_list = [] then diagram1
           else merge_vertical_segments m this1 xcurves vert_list diagram1),
          map Call_is_vertical_2 xcurves
          @ Call_construct_envelope_non_vertical reg_list
          # (if vert_list = [] then [] else [Call_merge_vertical_segments vert_list])))
   \<and> set (filter (\<lambda>i. \<not> is_vertical_2 tr (xcurves ! i)) [0..<length xcurves])
       \<inter> set (filter (\<lambda>i. is_vertical_2 tr (xcurves ! i)) [0..<length xcurves]) = {}
   \<and> set (filter (\<lambda>i. \<not> is_vertical_2 tr (xcurves ! i)) [0..<length xcurves])
       \<union> set (filter (\<lambda>i. is_vertical_2 tr (xcurves ! i)) [0..<length xcurves])
       = {0..<length xcurves}"
proof -
  have "set (filter (\<lambda>i. \<not> is_vertical_2 tr (xcurves ! i)) [0..<length xcurves])
       \<inter> set (filter (\<lambda>i. is_vertical_2 tr (xcurves ! i)) [0..<length xcurves]) = {}"
    by auto
  moreover have "set (filter (\<lambda>i. \<not> is_vertical_2 tr (xcurves ! i)) [0..<length xcurves])
       \<union> set (filter (\<lambda>i. is_vertical_2 tr (xcurves ! i)) [0..<length xcurves])
       = {0..<length xcurves}"
    by auto
  moreover have "insert_x_monotone_curves m tr this xcurves type diagram =
     (let reg_list = filter (\<lambda>i. \<not> is_vertical_2 tr (xcurves ! i)) [0..<length xcurves];
          vert_list = filter (\<lambda>i. is_vertical_2 tr (xcurves ! i)) [0..<length xcurves];
          this1 = this\<lparr>env_type := type\<rparr>;
          diagram1 = construct_envelope_non_vertical m this1 xcurves reg_list diagram
      in (this1,
          (if vert_list = [] then diagram1
           else merge_vertical_segments m this1 xcurves vert_list diagram1),
          map Call_is_vertical_2 xcurves
          @ Call_construct_envelope_non_vertical reg_list
          # (if vert_list = [] then [] else [Call_merge_vertical_segments vert_list])))"
    by (simp add: insert_x_monotone_curves_def separate_filter Let_def)
  ultimately show ?thesis by blast
qed

text \<open>
  C10: when \<open>is_vertical_2\<close> is false for every curve of the range,
  \<open>insert_x_monotone_curves\<close> makes no call of \<open>_merge_vertical_segments\<close>, and
  the diagram it leaves is the one \<open>_construct_envelope_non_vertical\<close> left for
  the pointers to all the curves of the range, in order.
\<close>

theorem insert_x_monotone_curves_no_vertical:
  assumes "\<forall>c \<in> set xcurves. \<not> is_vertical_2 tr c"
  shows "insert_x_monotone_curves m tr this xcurves type diagram =
           (this\<lparr>env_type := type\<rparr>,
            construct_envelope_non_vertical m (this\<lparr>env_type := type\<rparr>) xcurves
              [0..<length xcurves] diagram,
            map Call_is_vertical_2 xcurves
            @ [Call_construct_envelope_non_vertical [0..<length xcurves]])
         \<and> Call_merge_vertical_segments v
             \<notin> set (snd (snd (insert_x_monotone_curves m tr this xcurves type diagram)))"
proof -
  have reg: "filter (\<lambda>i. \<not> is_vertical_2 tr (xcurves ! i)) [0..<length xcurves]
             = [0..<length xcurves]"
    using assms by (simp add: filter_id_conv)
  have vert: "filter (\<lambda>i. is_vertical_2 tr (xcurves ! i)) [0..<length xcurves] = []"
    using assms by (simp add: filter_empty_conv)
  have eq: "insert_x_monotone_curves m tr this xcurves type diagram =
           (this\<lparr>env_type := type\<rparr>,
            construct_envelope_non_vertical m (this\<lparr>env_type := type\<rparr>) xcurves
              [0..<length xcurves] diagram,
            map Call_is_vertical_2 xcurves
            @ [Call_construct_envelope_non_vertical [0..<length xcurves]])"
    by (simp add: insert_x_monotone_curves_def separate_filter reg vert Let_def)
  have "Call_merge_vertical_segments v
          \<notin> set (map Call_is_vertical_2 xcurves
                 @ [Call_construct_envelope_non_vertical [0..<length xcurves]])"
    by auto
  with eq show ?thesis by simp
qed

theorem insert_x_monotone_curves_no_vertical_witness:
  "insert_x_monotone_curves recording_members segment_traits
     \<lparr>traits = 0, own_traits = False, env_type = LOWER\<rparr>
     [((0, 0), (2, 1)), ((1, 3), (4, 0))] UPPER []
   = (\<lparr>traits = 0, own_traits = False, env_type = UPPER\<rparr>,
      [[0, 1]],
      [Call_is_vertical_2 ((0, 0), (2, 1)), Call_is_vertical_2 ((1, 3), (4, 0)),
       Call_construct_envelope_non_vertical [0, 1]])"
proof -
  have h: "\<forall>c \<in> set [((0, 0), (2, 1)), ((1, 3), (4, 0)) :: segment].
             \<not> is_vertical_2 segment_traits c"
    by (simp add: segment_traits_def)
  show ?thesis
    using insert_x_monotone_curves_no_vertical [OF h, of recording_members
        "\<lparr>traits = 0, own_traits = False, env_type = LOWER\<rparr>" UPPER "[]"]
    by (simp add: recording_members_def upt_rec)
qed

subsection \<open>Ownership of the traits object\<close>

text \<open>
  C8: an instance built by the default constructor owns the traits object the
  constructor allocated (its pointer is the address \<open>new\<close> handed out, alive
  afterwards), and its destructor deletes exactly that object; an instance
  built from a pointer stores the pointer, does not own it, and its destructor
  leaves every heap as it is; \<open>get_traits\<close> returns the stored pointer in both
  cases.
\<close>

theorem traits_ownership:
  "(let (this, h1) = ctor h
    in own_traits this
       \<and> traits this = next_addr h
       \<and> live h1 = insert (traits this) (live h)
       \<and> deleted h1 = deleted h
       \<and> get_traits this = traits this
       \<and> dtor this h1 =
           Some (h1\<lparr>live := live h1 - {traits this}, deleted := deleted h1 @ [traits this]\<rparr>)
       \<and> (\<forall>h2. dtor this h2 = delete_Traits_2 (traits this) h2))
   \<and> (let this = ctor_traits p
      in \<not> own_traits this
         \<and> traits this = p
         \<and> get_traits this = p
         \<and> (\<forall>h2. dtor this h2 = Some h2))"
  by (simp add: ctor_def new_Traits_2_def ctor_traits_def dtor_def delete_Traits_2_def
        get_traits_def)

subsection \<open>Instances that cannot be copied\<close>

lemma init_world_inv: "world_inv init_world"
  by (simp add: world_inv_def init_world_def owners_unshared_def)

lemma step_New_default_inv:
  assumes "world_inv w" "step (New_default i) w = Some w'"
  shows "world_inv w'"
proof -
  from assms(2) have fresh: "i \<notin> fst ` set (instances w)"
    and w': "w' = \<lparr>traits_heap = (traits_heap w)\<lparr>next_addr := Suc (next_addr (traits_heap w)),
                      live := insert (next_addr (traits_heap w)) (live (traits_heap w))\<rparr>,
                   instances = (i, \<lparr>traits = next_addr (traits_heap w), own_traits = True,
                                    env_type = LOWER\<rparr>) # instances w\<rparr>"
    by (auto simp: ctor_def new_Traits_2_def split: if_splits)
  have below: "traits b \<noteq> next_addr (traits_heap w)"
    if "(j, b) \<in> set (instances w)" "own_traits b" for j b
  proof -
    from assms(1) that have "traits b \<in> live (traits_heap w)"
      unfolding world_inv_def by fastforce
    with assms(1) have "traits b < next_addr (traits_heap w)"
      unfolding world_inv_def by blast
    then show ?thesis by simp
  qed
  from assms(1) show ?thesis
    unfolding w' world_inv_def owners_unshared_def using fresh
    by (auto simp: less_Suc_eq dest: below)
qed

lemma step_New_with_traits_inv:
  assumes "world_inv w" "step (New_with_traits i p) w = Some w'"
  shows "world_inv w'"
proof -
  from assms(2) have fresh: "i \<notin> fst ` set (instances w)"
    and w': "w' = w\<lparr>instances := (i, ctor_traits p) # instances w\<rparr>"
    by (auto split: if_splits)
  from assms(1) show ?thesis
    unfolding w' world_inv_def owners_unshared_def using fresh
    by (auto simp: ctor_traits_def)
qed

lemma step_New_with_traits_of_inv:
  assumes "world_inv w" "step (New_with_traits_of i j) w = Some w'"
  shows "world_inv w'"
proof -
  from assms(2) obtain other where fresh: "i \<notin> fst ` set (instances w)"
    and w': "w' = w\<lparr>instances := (i, ctor_traits (get_traits other)) # instances w\<rparr>"
    by (auto split: if_splits option.splits)
  from assms(1) show ?thesis
    unfolding w' world_inv_def owners_unshared_def using fresh
    by (auto simp: ctor_traits_def)
qed

lemma step_Destroy_inv:
  assumes "world_inv w" "step (Destroy i) w = Some w'"
  shows "world_inv w'"
proof -
  from assms(2) obtain this h where
    inst: "map_of (instances w) i = Some this"
    and h: "dtor this (traits_heap w) = Some h"
    and w': "w' = \<lparr>traits_heap = h, instances = filter (\<lambda>(j, other). j \<noteq> i) (instances w)\<rparr>"
    by (auto split: option.splits)
  from inst have mem: "(i, this) \<in> set (instances w)"
    by (rule map_of_SomeD)
  show ?thesis
  proof (cases "own_traits this")
    case False
    with h have "h = traits_heap w" by (simp add: dtor_def)
    with assms(1) show ?thesis
      unfolding w' world_inv_def owners_unshared_def
      by (auto simp: distinct_map_filter)
  next
    case True
    with h have live: "traits this \<in> live (traits_heap w)"
      and h': "h = (traits_heap w)\<lparr>live := live (traits_heap w) - {traits this},
                     deleted := deleted (traits_heap w) @ [traits this]\<rparr>"
      by (auto simp: dtor_def delete_Traits_2_def split: if_splits)
    have others: "traits b \<noteq> traits this"
      if "(j, b) \<in> set (instances w)" "j \<noteq> i" "own_traits b" for j b
      using assms(1) that mem True unfolding world_inv_def owners_unshared_def by fastforce
    from assms(1) live show ?thesis
      unfolding w' h' world_inv_def owners_unshared_def
      by (auto simp: distinct_map_filter dest: others)
  qed
qed

lemma step_inv: "world_inv w \<Longrightarrow> step operation w = Some w' \<Longrightarrow> world_inv w'"
  by (cases operation)
     (blast intro: step_New_default_inv step_New_with_traits_inv
        step_New_with_traits_of_inv step_Destroy_inv)+

lemma run_inv: "world_inv w \<Longrightarrow> run ops w = Some w' \<Longrightarrow> world_inv w'"
proof (induction ops arbitrary: w)
  case Nil
  then show ?case by simp
next
  case (Cons operation ops)
  then show ?case by (auto split: option.splits dest: step_inv)
qed

lemma dtor_live:
  assumes "world_inv w" "map_of (instances w) i = Some this"
  shows "dtor this (traits_heap w) \<noteq> None"
proof -
  from assms(2) have "(i, this) \<in> set (instances w)" by (rule map_of_SomeD)
  with assms(1) have "own_traits this \<longrightarrow> traits this \<in> live (traits_heap w)"
    unfolding world_inv_def by fastforce
  then show ?thesis by (simp add: dtor_def delete_Traits_2_def)
qed

text \<open>
  C9, as stated: no pointer stored by an owning instance is stored by another
  live instance. It fails: an instance declared with the default constructor
  and a second one declared with the pointer \<open>get_traits\<close> of the first
  returns are both alive and store the same pointer.
\<close>

theorem owned_traits_shared_counterexample:
  "run [New_default 0, New_with_traits_of 1 0] init_world =
     Some \<lparr>traits_heap = \<lparr>next_addr = 1, live = {0}, deleted = []\<rparr>,
           instances = [(1, \<lparr>traits = 0, own_traits = False, env_type = LOWER\<rparr>),
                        (0, \<lparr>traits = 0, own_traits = True, env_type = LOWER\<rparr>)]\<rparr>
   \<and> \<not> owned_traits_unshared
         \<lparr>traits_heap = \<lparr>next_addr = 1, live = {0}, deleted = []\<rparr>,
          instances = [(1, \<lparr>traits = 0, own_traits = False, env_type = LOWER\<rparr>),
                       (0, \<lparr>traits = 0, own_traits = True, env_type = LOWER\<rparr>)]\<rparr>"
  by (simp add: init_world_def ctor_def new_Traits_2_def ctor_traits_def get_traits_def
        owned_traits_unshared_def)

text \<open>
  C9, amended: no operation copies an instance, so after every program over
  the public interface no two live owning instances store the same pointer, no
  traits object has been deleted more than once, and the destructor of every
  live instance deletes an object that is alive or deletes nothing.
\<close>

theorem owners_never_share:
  assumes "run ops init_world = Some w"
  shows "owners_unshared w
         \<and> distinct (deleted (traits_heap w))
         \<and> (\<forall>i this. map_of (instances w) i = Some this \<longrightarrow> dtor this (traits_heap w) \<noteq> None)"
proof -
  have inv: "world_inv w" using init_world_inv assms by (rule run_inv)
  then show ?thesis using dtor_live[OF inv] by (simp add: world_inv_def)
qed

theorem owners_never_share_witness:
  "owners_unshared
     \<lparr>traits_heap = \<lparr>next_addr = 2, live = {1}, deleted = [0]\<rparr>,
      instances = [(2, \<lparr>traits = 1, own_traits = True, env_type = LOWER\<rparr>),
                   (1, \<lparr>traits = 0, own_traits = False, env_type = LOWER\<rparr>)]\<rparr>
   \<and> distinct (deleted (traits_heap
     \<lparr>traits_heap = \<lparr>next_addr = 2, live = {1}, deleted = [0]\<rparr>,
      instances = [(2, \<lparr>traits = 1, own_traits = True, env_type = LOWER\<rparr>),
                   (1, \<lparr>traits = 0, own_traits = False, env_type = LOWER\<rparr>)]\<rparr>))"
proof -
  have h: "run [New_default 0, New_with_traits_of 1 0, New_default 2, Destroy 0] init_world =
     Some \<lparr>traits_heap = \<lparr>next_addr = 2, live = {1}, deleted = [0]\<rparr>,
      instances = [(2, \<lparr>traits = 1, own_traits = True, env_type = LOWER\<rparr>),
                   (1, \<lparr>traits = 0, own_traits = False, env_type = LOWER\<rparr>)]\<rparr>"
    by (auto simp: init_world_def ctor_def new_Traits_2_def ctor_traits_def get_traits_def
          dtor_def delete_Traits_2_def)
  show ?thesis using owners_never_share [OF h] by simp
qed

subsection \<open>The comparison of vertices\<close>

text \<open>
  C5: \<open>_compare_vertices\<close> returns SMALLER exactly when x(v1) < x(v2), or the
  x-coordinates are equal and y(v1) < y(v2) for the lower envelope, y(v1) >
  y(v2) for the upper one; LARGER exactly under the mirrored conditions; EQUAL
  exactly when v1 = v2; and \<open>same_x\<close> is true exactly when x(v1) = x(v2).
\<close>

theorem compare_vertices_spec:
  "(fst (compare_vertices this v1 v2) = SMALLER \<longleftrightarrow>
      fst v1 < fst v2
      \<or> (fst v1 = fst v2
          \<and> ((env_type this = LOWER \<and> snd v1 < snd v2)
              \<or> (env_type this = UPPER \<and> snd v1 > snd v2))))
   \<and> (fst (compare_vertices this v1 v2) = LARGER \<longleftrightarrow>
      fst v1 > fst v2
      \<or> (fst v1 = fst v2
          \<and> ((env_type this = LOWER \<and> snd v1 > snd v2)
              \<or> (env_type this = UPPER \<and> snd v1 < snd v2))))
   \<and> (fst (compare_vertices this v1 v2) = EQUAL \<longleftrightarrow> v1 = v2)
   \<and> (snd (compare_vertices this v1 v2) \<longleftrightarrow> fst v1 = fst v2)"
  by (cases "env_type this") (auto simp: compare_vertices_def prod_eq_iff)

subsection \<open>The empty input\<close>

text \<open>
  C7: for an empty range \<open>insert_x_monotone_curves\<close> and \<open>insert_curves\<close>
  return, call \<open>_construct_envelope_non_vertical\<close> on the empty pointer list
  and nothing after it, and leave the empty diagram: no vertex, and one
  unbounded edge with the empty curve set.
\<close>

theorem empty_input_empty_diagram:
  "insert_x_monotone_curves (spec_members singleton merge merge_vertical) tr this [] type diagram
     = (this\<lparr>env_type := type\<rparr>, empty_diagram, [Call_construct_envelope_non_vertical []])
   \<and> insert_curves (spec_members singleton merge merge_vertical) tr obj_itr this [] type diagram
     = (this\<lparr>env_type := type\<rparr>, empty_diagram,
        [Call_insert_x_monotone_curves [] type, Call_construct_envelope_non_vertical []])
   \<and> pieces (empty_diagram :: ('pt, 'xcv) Envelope_diagram_1) = []
   \<and> rightmost (empty_diagram :: ('pt, 'xcv) Envelope_diagram_1) = {}"
  by (simp add: insert_x_monotone_curves_def insert_curves_def spec_members_def empty_diagram_def)

subsection \<open>Co-extremal curve sets in the merge of two intervals\<close>

lemma curves_at_pieces_unbounded:
  "\<exists>q \<in> set (map (fst \<circ> snd) vs). x < q \<Longrightarrow>
   curves_at_pieces vs rm x = curves_at_pieces vs rm' x"
proof (induction vs)
  case Nil
  then show ?case by simp
next
  case (Cons piece vs)
  obtain e p where piece: "piece = (e, p)" by (cases piece)
  show ?case
  proof (cases "x < fst p")
    case True
    then show ?thesis by (simp add: piece)
  next
    case False
    with Cons.prems have "\<exists>q \<in> set (map (fst \<circ> snd) vs). x < q" by (simp add: piece)
    then have "curves_at_pieces vs rm x = curves_at_pieces vs rm' x" by (rule Cons.IH)
    with False show ?thesis by (simp add: piece)
  qed
qed

lemma curves_at_pieces_beyond:
  "\<forall>q \<in> set (map (fst \<circ> snd) vs). \<not> x < q \<Longrightarrow> curves_at_pieces vs rm x = rm"
proof (induction vs)
  case Nil
  then show ?case by simp
next
  case (Cons piece vs)
  obtain e p where piece: "piece = (e, p)" by (cases piece)
  from Cons.prems have "\<not> x < fst p" and "\<forall>q \<in> set (map (fst \<circ> snd) vs). \<not> x < q"
    by (simp_all add: piece)
  then show ?case using Cons.IH by (simp add: piece)
qed

lemma curves_at_pieces_append_covered:
  "\<exists>q \<in> set (map (fst \<circ> snd) vs). x < q \<Longrightarrow>
   curves_at_pieces (vs @ ws) rm x = curves_at_pieces vs rm' x"
proof (induction vs)
  case Nil
  then show ?case by simp
next
  case (Cons piece vs)
  obtain e p where piece: "piece = (e, p)" by (cases piece)
  show ?case
  proof (cases "x < fst p")
    case True
    then show ?thesis by (simp add: piece)
  next
    case False
    with Cons.prems have "\<exists>q \<in> set (map (fst \<circ> snd) vs). x < q" by (simp add: piece)
    then have "curves_at_pieces (vs @ ws) rm x = curves_at_pieces vs rm' x" by (rule Cons.IH)
    with False show ?thesis by (simp add: piece)
  qed
qed

lemma curves_at_pieces_append_beyond:
  "\<forall>q \<in> set (map (fst \<circ> snd) vs). \<not> x < q \<Longrightarrow>
   curves_at_pieces (vs @ ws) rm x = curves_at_pieces ws rm x"
proof (induction vs)
  case Nil
  then show ?case by simp
next
  case (Cons piece vs)
  obtain e p where piece: "piece = (e, p)" by (cases piece)
  from Cons.prems have "\<not> x < fst p" and "\<forall>q \<in> set (map (fst \<circ> snd) vs). \<not> x < q"
    by (simp_all add: piece)
  then show ?case using Cons.IH by (simp add: piece)
qed

lemma rightmost_vertex_SomeD:
  assumes "rightmost_vertex d = Some q"
  obtains us e' where "pieces d = us @ [(e', q)]"
proof (cases "pieces d" rule: rev_cases)
  case Nil
  with assms show ?thesis by (simp add: rightmost_vertex_def)
next
  case (snoc us piece)
  with assms have "snd piece = q" by (simp add: rightmost_vertex_def)
  then have "piece = (fst piece, q)" by (cases piece) simp
  with snoc have "pieces d = us @ [(fst piece, q)]" by simp
  then show ?thesis by (rule that)
qed

lemma left_of_last:
  assumes "sorted_wrt (<) (map (fst \<circ> snd) (us @ [(e', q)]))" "fst q < (x::'a::linorder)"
  shows "\<forall>x' \<in> set (map (fst \<circ> snd) us). \<not> x < x'"
proof
  fix x' assume "x' \<in> set (map (fst \<circ> snd) us)"
  then have "x' < fst q" using assms(1) by (auto simp: sorted_wrt_append)
  with assms(2) show "\<not> x < x'" by auto
qed

lemma curves_at_append_vertex_left:
  assumes sorted: "sorted_wrt (<) (vertex_xs d @ [fst p])"
      and l: "rightmost_vertex d = Some q" and x: "x < fst q"
  shows "curves_at (append_vertex d p e) x = curves_at d x"
proof -
  from l obtain us e' where vs: "pieces d = us @ [(e', q)]" by (rule rightmost_vertex_SomeD)
  have qp: "fst q < fst p" using sorted by (simp add: vertex_xs_def vs sorted_wrt_append)
  have xp: "x < fst p" using x qp by (rule less_trans)
  have covered: "\<exists>x' \<in> set (map (fst \<circ> snd) (us @ [(e', q)])). x < x'" using x by simp
  show ?thesis
  proof (cases "e' = e")
    case False
    then have "pieces (append_vertex d p e) = (us @ [(e', q)]) @ [(e, p)]"
      and "rightmost (append_vertex d p e) = rightmost d"
      by (simp_all add: append_vertex_def vs)
    then show ?thesis
      unfolding curves_at_def vs using curves_at_pieces_append_covered[OF covered] by simp
  next
    case True
    then have ps: "pieces (append_vertex d p e) = us @ [(e, p)]"
      and rm: "rightmost (append_vertex d p e) = rightmost d"
      by (simp_all add: append_vertex_def vs)
    show ?thesis
    proof (cases "\<exists>x' \<in> set (map (fst \<circ> snd) us). x < x'")
      case c: True
      show ?thesis
        unfolding curves_at_def vs ps rm
        using curves_at_pieces_append_covered[OF c, of "[(e, p)]" "rightmost d" "rightmost d"]
          curves_at_pieces_append_covered[OF c, of "[(e', q)]" "rightmost d" "rightmost d"] by simp
    next
      case c: False
      then have c': "\<forall>x' \<in> set (map (fst \<circ> snd) us). \<not> x < x'" by simp
      show ?thesis
        unfolding curves_at_def vs ps rm
        using curves_at_pieces_append_beyond[OF c', of "[(e, p)]" "rightmost d"]
          curves_at_pieces_append_beyond[OF c', of "[(e', q)]" "rightmost d"] x xp True by simp
    qed
  qed
qed

lemma curves_at_append_vertex_in:
  assumes sorted: "sorted_wrt (<) (vertex_xs d @ [fst p])"
      and x: "inside (rightmost_vertex d) x (Some p)"
  shows "curves_at (append_vertex d p e) x = e"
proof (cases "rightmost_vertex d")
  case None
  then have "pieces d = []" by (simp add: rightmost_vertex_def split: if_splits)
  then show ?thesis using x by (simp add: curves_at_def append_vertex_def inside_def)
next
  case (Some q)
  then obtain us e' where vs: "pieces d = us @ [(e', q)]" by (rule rightmost_vertex_SomeD)
  have qx: "fst q < x" and xp: "x < fst p"
    using x by (simp_all add: inside_def Some)
  have nqx: "\<not> x < fst q" using qx by auto
  have "sorted_wrt (<) (map (fst \<circ> snd) (us @ [(e', q)]))"
    using sorted by (simp add: vertex_xs_def vs sorted_wrt_append)
  then have below: "\<forall>x' \<in> set (map (fst \<circ> snd) us). \<not> x < x'"
    using qx by (rule left_of_last)
  show ?thesis
  proof (cases "e' = e")
    case False
    then have "pieces (append_vertex d p e) = us @ [(e', q), (e, p)]"
      by (simp add: append_vertex_def vs)
    then show ?thesis
      unfolding curves_at_def using curves_at_pieces_append_beyond[OF below] nqx xp by simp
  next
    case True
    then have "pieces (append_vertex d p e) = us @ [(e, p)]"
      by (simp add: append_vertex_def vs)
    then show ?thesis
      unfolding curves_at_def using curves_at_pieces_append_beyond[OF below] xp by simp
  qed
qed

lemma curves_at_set_rightmost_left:
  assumes l: "rightmost_vertex d = Some q" and x: "x < fst q"
  shows "curves_at (set_rightmost d e) x = curves_at d x"
proof -
  from l obtain us e' where vs: "pieces d = us @ [(e', q)]" by (rule rightmost_vertex_SomeD)
  have covered: "\<exists>x' \<in> set (map (fst \<circ> snd) (us @ [(e', q)])). x < x'" using x by simp
  show ?thesis
  proof (cases "e' = e")
    case False
    then have "pieces (set_rightmost d e) = us @ [(e', q)]"
      by (simp add: set_rightmost_def vs)
    then show ?thesis
      unfolding curves_at_def vs using curves_at_pieces_unbounded[OF covered] by simp
  next
    case True
    then have ps: "pieces (set_rightmost d e) = us" and rm: "rightmost (set_rightmost d e) = e"
      by (simp_all add: set_rightmost_def vs)
    show ?thesis
    proof (cases "\<exists>x' \<in> set (map (fst \<circ> snd) us). x < x'")
      case c: True
      show ?thesis
        unfolding curves_at_def vs ps rm
        using curves_at_pieces_append_covered[OF c, of "[(e', q)]" "rightmost d" e] by simp
    next
      case c: False
      then have c': "\<forall>x' \<in> set (map (fst \<circ> snd) us). \<not> x < x'" by simp
      show ?thesis
        unfolding curves_at_def vs ps rm
        using curves_at_pieces_append_beyond[OF c', of "[(e', q)]" "rightmost d"] curves_at_pieces_beyond[OF c', of e] x True
        by simp
    qed
  qed
qed

lemma curves_at_set_rightmost_in:
  assumes sorted: "sorted_wrt (<) (vertex_xs d)"
      and x: "inside (rightmost_vertex d) x None"
  shows "curves_at (set_rightmost d e) x = e"
proof (cases "rightmost_vertex d")
  case None
  then have "pieces d = []" by (simp add: rightmost_vertex_def split: if_splits)
  then show ?thesis by (simp add: curves_at_def set_rightmost_def)
next
  case (Some q)
  then obtain us e' where vs: "pieces d = us @ [(e', q)]" by (rule rightmost_vertex_SomeD)
  have qx: "fst q < x"
    using x by (simp add: inside_def Some)
  have nqx: "\<not> x < fst q" using qx by auto
  have "sorted_wrt (<) (map (fst \<circ> snd) (us @ [(e', q)]))"
    using sorted by (simp add: vertex_xs_def vs)
  then have below: "\<forall>x' \<in> set (map (fst \<circ> snd) us). \<not> x < x'"
    using qx by (rule left_of_last)
  show ?thesis
  proof (cases "e' = e")
    case False
    then have "pieces (set_rightmost d e) = us @ [(e', q)]" "rightmost (set_rightmost d e) = e"
      by (simp_all add: set_rightmost_def vs)
    then show ?thesis
      unfolding curves_at_def using curves_at_pieces_append_beyond[OF below] nqx by simp
  next
    case True
    then have "pieces (set_rightmost d e) = us" "rightmost (set_rightmost d e) = e"
      by (simp_all add: set_rightmost_def vs)
    then show ?thesis
      unfolding curves_at_def using curves_at_pieces_beyond[OF below] by simp
  qed
qed

lemma rightmost_vertex_append_vertex:
  "rightmost_vertex (append_vertex d p e) = Some p"
  by (simp add: rightmost_vertex_def append_vertex_def)

lemma sorted_append_vertex:
  assumes "sorted_wrt (<) (vertex_xs d @ fst p # rest)"
  shows "sorted_wrt (<) (vertex_xs (append_vertex d p e) @ rest)"
proof (cases "pieces d \<noteq> [] \<and> fst (last (pieces d)) = e")
  case False
  then have "vertex_xs (append_vertex d p e) = vertex_xs d @ [fst p]"
    by (auto simp: append_vertex_def vertex_xs_def)
  with assms show ?thesis by simp
next
  case True
  then have "vertex_xs (append_vertex d p e) = butlast (vertex_xs d) @ [fst p]"
    by (simp add: append_vertex_def vertex_xs_def map_butlast)
  moreover have "sorted_wrt (<) (butlast (vertex_xs d))"
    using assms by (simp add: sorted_wrt_append butlast_conv_take sorted_wrt_take)
  then have "sorted_wrt (<) (butlast (vertex_xs d) @ fst p # rest)"
    using assms by (auto simp: sorted_wrt_append dest: in_set_butlastD)
  ultimately show ?thesis by simp
qed

lemma merge_sub_intervals_at:
  assumes "sorted_wrt (<) (vertex_xs d @ map fst ps @ (case r of None \<Rightarrow> [] | Some v \<Rightarrow> [fst v]))"
      and "l = rightmost_vertex d"
  shows "(\<forall>q. l = Some q \<longrightarrow> x < fst q \<longrightarrow>
            curves_at (merge_sub_intervals mt type e1 e2 l ps r d) x = curves_at d x)
       \<and> (\<forall>(a, b) \<in> set (sub_intervals l ps r). inside a x b \<longrightarrow>
            curves_at (merge_sub_intervals mt type e1 e2 l ps r d) x
              = interval_curves mt type e1 e2 a b)"
  using assms
proof (induction ps arbitrary: l d)
  case Nil
  show ?case
  proof (cases r)
    case None
    with Nil show ?thesis
      by (auto simp: sub_intervals_def curves_at_set_rightmost_left curves_at_set_rightmost_in)
  next
    case (Some v)
    with Nil show ?thesis
      by (auto simp: sub_intervals_def curves_at_append_vertex_left curves_at_append_vertex_in)
  qed
next
  case (Cons p ps)
  let ?d' = "append_vertex d p (interval_curves mt type e1 e2 l (Some p))"
  have s1: "sorted_wrt (<) (vertex_xs d @ [fst p])"
    using Cons.prems(1) by (auto simp: sorted_wrt_append)
  have s': "sorted_wrt (<) (vertex_xs ?d' @ map fst ps @ (case r of None \<Rightarrow> [] | Some v \<Rightarrow> [fst v]))"
    using Cons.prems(1) sorted_append_vertex[of d p] by simp
  have IH: "(\<forall>q. Some p = Some q \<longrightarrow> x < fst q \<longrightarrow>
            curves_at (merge_sub_intervals mt type e1 e2 (Some p) ps r ?d') x = curves_at ?d' x)
       \<and> (\<forall>(a, b) \<in> set (sub_intervals (Some p) ps r). inside a x b \<longrightarrow>
            curves_at (merge_sub_intervals mt type e1 e2 (Some p) ps r ?d') x
              = interval_curves mt type e1 e2 a b)"
    by (rule Cons.IH[OF s']) (simp add: rightmost_vertex_append_vertex)
  have sub: "set (sub_intervals l (p # ps) r) =
             insert (l, Some p) (set (sub_intervals (Some p) ps r))"
    by (simp add: sub_intervals_def)
  have left: "curves_at (merge_sub_intervals mt type e1 e2 l (p # ps) r d) x = curves_at d x"
    if "l = Some q" "x < fst q" for q
  proof -
    have "fst q < fst p"
      using Cons.prems that(1)
      by (cases "pieces d" rule: rev_cases)
         (auto simp: rightmost_vertex_def vertex_xs_def sorted_wrt_append split: if_splits)
    with that have "x < fst p" by simp
    with IH have "curves_at (merge_sub_intervals mt type e1 e2 l (p # ps) r d) x = curves_at ?d' x"
      by simp
    also have "\<dots> = curves_at d x"
    proof -
      have "rightmost_vertex d = Some q" using Cons.prems(2) that(1) by simp
      with s1 show ?thesis using that(2) by (rule curves_at_append_vertex_left)
    qed
    finally show ?thesis .
  qed
  have first: "curves_at (merge_sub_intervals mt type e1 e2 l (p # ps) r d) x
                = interval_curves mt type e1 e2 l (Some p)"
    if "inside l x (Some p)"
  proof -
    from that have "x < fst p" by (simp add: inside_def)
    with IH have "curves_at (merge_sub_intervals mt type e1 e2 l (p # ps) r d) x = curves_at ?d' x"
      by simp
    also have "\<dots> = interval_curves mt type e1 e2 l (Some p)"
      using s1 Cons.prems(2) that by (simp add: curves_at_append_vertex_in)
    finally show ?thesis .
  qed
  show ?case
    unfolding sub using left first IH by auto
qed

text \<open>
  C4: let the vertices of the merged diagram so far, the crossing points and
  the next vertex increase strictly in x. When \<open>compare_at_x\<close> returns EQUAL for
  the curve sets of the two edges over a sub-interval of the interval being
  merged, then over every x inside that sub-interval the edge of the diagram
  \<open>_merge_two_intervals\<close> returns has the union of the two curve sets as its
  curve set. The merge is not cut short by it: over every sub-interval, also
  those to the right of the one that compared EQUAL, the returned diagram has
  the edge that sub-interval is classified to, and left of the interval the
  diagram is as it was.
\<close>

theorem merge_two_intervals_equal_union:
  assumes "sorted_wrt (<)
             (vertex_xs out_d
              @ map fst (crossing_points mt e1 e2 (rightmost_vertex out_d)
                           (if v_exists then Some v else None))
              @ (if v_exists then [fst v] else []))"
      and "(a, b) \<in> set (sub_intervals (rightmost_vertex out_d)
             (crossing_points mt e1 e2 (rightmost_vertex out_d) (if v_exists then Some v else None))
             (if v_exists then Some v else None))"
      and "compare_at_x mt (env_type this) e1 e2 (representative_x mt a b) = EQUAL"
      and "inside a x b"
  shows "curves_at
           (merge_two_intervals mt this e1 is_leftmost1 e2 is_leftmost2 v v_exists org_v out_d) x
         = e1 \<union> e2
       \<and> (\<forall>(a', b') \<in> set (sub_intervals (rightmost_vertex out_d)
             (crossing_points mt e1 e2 (rightmost_vertex out_d)
                (if v_exists then Some v else None))
             (if v_exists then Some v else None)).
            \<forall>x'. inside a' x' b' \<longrightarrow>
              curves_at
                (merge_two_intervals mt this e1 is_leftmost1 e2 is_leftmost2 v v_exists org_v
                   out_d) x'
              = interval_curves mt (env_type this) e1 e2 a' b')
       \<and> (\<forall>q x'. rightmost_vertex out_d = Some q \<longrightarrow> x' < fst q \<longrightarrow>
            curves_at
              (merge_two_intervals mt this e1 is_leftmost1 e2 is_leftmost2 v v_exists org_v
                 out_d) x'
            = curves_at out_d x')"
proof -
  let ?l = "rightmost_vertex out_d"
  let ?r = "if v_exists then Some v else None"
  let ?ps = "crossing_points mt e1 e2 ?l ?r"
  let ?res = "merge_two_intervals mt this e1 is_leftmost1 e2 is_leftmost2 v v_exists org_v out_d"
  have res: "?res = merge_sub_intervals mt (env_type this) e1 e2 ?l ?ps ?r out_d"
    by (simp add: merge_two_intervals_def Let_def)
  have sorted: "sorted_wrt (<)
      (vertex_xs out_d @ map fst ?ps @ (case ?r of None \<Rightarrow> [] | Some v \<Rightarrow> [fst v]))"
    using assms(1) by (cases v_exists) simp_all
  have at: "(\<forall>q. ?l = Some q \<longrightarrow> x' < fst q \<longrightarrow> curves_at ?res x' = curves_at out_d x')
       \<and> (\<forall>(a', b') \<in> set (sub_intervals ?l ?ps ?r). inside a' x' b' \<longrightarrow>
            curves_at ?res x' = interval_curves mt (env_type this) e1 e2 a' b')" for x'
    unfolding res using sorted refl by (rule merge_sub_intervals_at)
  have "interval_curves mt (env_type this) e1 e2 a b = e1 \<union> e2"
    using assms(3) by (simp add: interval_curves_def)
  moreover have "curves_at ?res x = interval_curves mt (env_type this) e1 e2 a b"
    using at[of x] assms(2,4) by blast
  ultimately have first: "curves_at ?res x = e1 \<union> e2" by simp
  have second: "\<forall>(a', b') \<in> set (sub_intervals ?l ?ps ?r).
            \<forall>x'. inside a' x' b' \<longrightarrow>
              curves_at ?res x' = interval_curves mt (env_type this) e1 e2 a' b'"
    using at by blast
  have third: "\<forall>q x'. ?l = Some q \<longrightarrow> x' < fst q \<longrightarrow> curves_at ?res x' = curves_at out_d x'"
    using at by blast
  from first second third show ?thesis by blast
qed

theorem merge_two_intervals_equal_union_witness:
  "curves_at
     (merge_two_intervals ramp_merger_traits
        \<lparr>traits = 0, own_traits = False, env_type = LOWER\<rparr>
        {(1, 0, 2)} False {(2, 2, 2)} False (10, 2) True 1
        \<lparr>pieces = [({}, (0, 0))], rightmost = {}\<rparr>) 5
   = {(1, 0, 2)} \<union> {(2, 2, 2)}"
proof -
  let ?d = "\<lparr>pieces = [({}, (0, 0))], rightmost = {}\<rparr>
              :: (point, nat \<times> int \<times> int) Envelope_diagram_1"
  have ps: "crossing_points ramp_merger_traits {(1, 0, 2)} {(2, 2, 2)} (rightmost_vertex ?d)
              (if True then Some (10, 2) else None) = [(2, 2)]"
    by (simp add: ramp_merger_traits_def rightmost_vertex_def inside_def)
  have h1: "sorted_wrt (<)
             (vertex_xs ?d
              @ map fst (crossing_points ramp_merger_traits {(1, 0, 2)} {(2, 2, 2)}
                           (rightmost_vertex ?d) (if True then Some (10, 2) else None))
              @ (if True then [fst (10 :: int, 2 :: int)] else []))"
    unfolding ps by (simp add: vertex_xs_def)
  have h2: "(Some (2, 2), Some (10, 2)) \<in> set (sub_intervals (rightmost_vertex ?d)
             (crossing_points ramp_merger_traits {(1, 0, 2)} {(2, 2, 2)} (rightmost_vertex ?d)
                (if True then Some (10, 2) else None))
             (if True then Some (10, 2) else None))"
    unfolding ps by (simp add: sub_intervals_def)
  have h3: "compare_at_x ramp_merger_traits
              (env_type \<lparr>traits = 0, own_traits = False, env_type = LOWER\<rparr>)
              {(1, 0, 2)} {(2, 2, 2)}
              (representative_x ramp_merger_traits (Some (2, 2)) (Some (10, 2))) = EQUAL"
    by (simp add: ramp_merger_traits_def ramp_value_def)
  have h4: "inside (Some (2 :: int, 2 :: int)) 5 (Some (10, 2))"
    by (simp add: inside_def)
  show ?thesis
    using merge_two_intervals_equal_union [OF h1 h2 h3 h4, of False False 1] by simp
qed

end
